theory Spec2Isabelle
  imports Main "HOL-Library.Multiset"
begin

section \<open>The item ledger of \<open>src/App.tsx\<close>\<close>

text \<open>
  The ledger is the reducer state of \<open>App.tsx\<close>: a flag \<open>isUploading\<close> and the list
  \<open>items\<close> of parts. A part is a JavaScript object. Its \<open>success\<close> field is
  \<open>null\<close>, \<open>true\<close> or \<open>false\<close> (\<open>None\<close>, \<open>Some True\<close>, \<open>Some False\<close>).
  Its \<open>id\<close> field is a number, but the object built by
  \<open>{ ...prevState.items[idx], success: true }\<close> has no \<open>id\<close> property at all when
  \<open>prevState.items[idx]\<close> is \<open>undefined\<close>, so the field is optional here
  (\<open>None\<close> is the absent property). The field is called \<open>part_id\<close> because
  \<open>id\<close> is the identity function of HOL.
\<close>

record Part =
  part_id :: "int option"
  success :: "bool option"

record State =
  isUploading :: bool
  items :: "Part list"

datatype Action =
    ADD_ITEMS "Part list"
  | START_UPLOAD
  | UPLOAD_SUCCESS int
  | UPLOAD_FAILED int

definition TOTAL_PARTS :: nat where
  "TOTAL_PARTS = 500"

subsection \<open>The array operations of JavaScript that the reducer uses\<close>

text \<open>
  \<open>Array.prototype.findIndex\<close>: the index of the first element that satisfies the
  predicate, and \<open>-1\<close> when there is none.
\<close>

fun findIndex :: "('a \<Rightarrow> bool) \<Rightarrow> 'a list \<Rightarrow> int" where
  "findIndex P [] = - 1"
| "findIndex P (x # xs) =
     (if P x then 0
      else (let r = findIndex P xs in if r = - 1 then - 1 else r + 1))"

text \<open>
  \<open>xs[i]\<close>: the element at an index in range, and \<open>undefined\<close> (\<open>None\<close>)
  at any other index; \<open>xs[-1]\<close> is \<open>undefined\<close>, never the last element.
\<close>

definition js_index :: "'a list \<Rightarrow> int \<Rightarrow> 'a option" where
  "js_index xs i = (if 0 \<le> i \<and> i < int (length xs) then Some (xs ! nat i) else None)"

text \<open>
  \<open>Array.prototype.slice(start, end)\<close>: a negative bound counts from the end of the
  array, both bounds are clamped to \<open>0 .. length\<close>, and the result is empty when the
  end is not after the start. \<open>slice(start)\<close> runs to the end of the array.
\<close>

definition slice_bound :: "nat \<Rightarrow> int \<Rightarrow> int" where
  "slice_bound len b = (if b < 0 then max (int len + b) 0 else min b (int len))"

definition slice :: "'a list \<Rightarrow> int \<Rightarrow> int \<Rightarrow> 'a list" where
  "slice xs start end =
     (let k = slice_bound (length xs) start;
          final = slice_bound (length xs) end
      in take (nat (final - k)) (drop (nat k) xs))"

definition slice_from :: "'a list \<Rightarrow> int \<Rightarrow> 'a list" where
  "slice_from xs start = slice xs start (int (length xs))"

text \<open>
  \<open>{ ...x, success: b }\<close>: a copy of the object \<open>x\<close> with \<open>success\<close> replaced;
  spreading \<open>undefined\<close> copies nothing, which leaves an object whose only property
  is \<open>success\<close>.
\<close>

definition spread_success :: "Part option \<Rightarrow> bool option \<Rightarrow> Part" where
  "spread_success x b =
     (case x of
        None \<Rightarrow> \<lparr>part_id = None, success = b\<rparr>
      | Some p \<Rightarrow> p\<lparr>success := b\<rparr>)"

subsection \<open>The reducer\<close>

text \<open>\<open>pending\<close> is the filter \<open>p.success === null\<close> of lines 36 and 147.\<close>

definition pending :: "Part list \<Rightarrow> Part list" where
  "pending xs = filter (\<lambda>p. success p = None) xs"

definition anyItemsPending :: "Part list \<Rightarrow> bool" where
  "anyItemsPending xs = (length (pending xs) > 0)"

text \<open>
  The two outcome cases of the reducer differ only in the value stored, so they share
  \<open>set_outcome\<close>: \<open>findIndex\<close>, the spread, the two slices around the index.
\<close>

definition set_outcome :: "Part list \<Rightarrow> int \<Rightarrow> bool \<Rightarrow> Part list" where
  "set_outcome xs payload b =
     (let idx = findIndex (\<lambda>i. part_id i = Some payload) xs;
          nextItem = spread_success (js_index xs idx) (Some b)
      in slice xs 0 idx @ [nextItem] @ slice_from xs (idx + 1))"

text \<open>
  In \<open>START_UPLOAD\<close> the test \<open>if (p.success)\<close> is JavaScript truthiness: only
  \<open>true\<close> passes, \<open>false\<close> and \<open>null\<close> are both reset to \<open>null\<close>.
  The \<open>default\<close> branch of the \<open>switch\<close> has no action to take: \<open>Action\<close> has
  the four cases below. No branch throws.
\<close>

fun reducer :: "State \<Rightarrow> Action \<Rightarrow> State" where
  "reducer prevState (ADD_ITEMS payload) = prevState\<lparr>items := payload\<rparr>"
| "reducer prevState START_UPLOAD =
     (let resetItems =
            map (\<lambda>p. if success p = Some True then p else p\<lparr>success := None\<rparr>)
              (items prevState)
      in prevState\<lparr>isUploading := True, items := resetItems\<rparr>)"
| "reducer prevState (UPLOAD_SUCCESS payload) =
     (let items' = set_outcome (items prevState) payload True
      in prevState\<lparr>items := items', isUploading := anyItemsPending items'\<rparr>)"
| "reducer prevState (UPLOAD_FAILED payload) =
     (let items1 = set_outcome (items prevState) payload False
      in prevState\<lparr>items := items1, isUploading := anyItemsPending items1\<rparr>)"

definition initialState :: State where
  "initialState = \<lparr>isUploading = False, items = []\<rparr>"

subsection \<open>The callers of the reducer\<close>

text \<open>
  \<open>Array(n).fill(undefined).map((_, i) => i)\<close>: an array of \<open>n\<close> holes, filled, then
  each element replaced by its index.
\<close>

definition fakeParts :: "nat \<Rightarrow> int list" where
  "fakeParts n = map (\<lambda>(i, _). int i) (enumerate 0 (replicate n ()))"

text \<open>
  \<open>handleInitialize\<close> with the number of parts as a parameter; the source calls it
  with the constant \<open>TOTAL_PARTS\<close>.
\<close>

definition initialize :: "nat \<Rightarrow> State \<Rightarrow> State" where
  "initialize n s =
     reducer s (ADD_ITEMS (map (\<lambda>i. \<lparr>part_id = Some i, success = None\<rparr>) (fakeParts n)))"

definition handleInitialize :: "State \<Rightarrow> State" where
  "handleInitialize s = initialize TOTAL_PARTS s"

text \<open>
  \<open>run\<close> dispatches \<open>START_UPLOAD\<close> and queues one task for every part of
  \<open>toProcess\<close>, which it filters from the state it was rendered with. Each task
  dispatches \<open>UPLOAD_SUCCESS\<close> or \<open>UPLOAD_FAILED\<close> with the identifier of its part
  when its request settles. The order in which the requests settle and their results are
  not decided by the program; here they are the list \<open>outs\<close> of one pass, a pair
  of identifier and result for each dispatch, in the order of the dispatches. The queue
  that starts the tasks is the library \<open>p-queue\<close>; it is not part of the program and
  is not modelled, so \<open>run\<close> says what the ledger is after the dispatches of a pass and
  nothing about when they happen.
\<close>

definition toProcess :: "State \<Rightarrow> Part list" where
  "toProcess s = filter (\<lambda>part. success part \<noteq> Some True) (items s)"

definition submitted :: "State \<Rightarrow> int option list" where
  "submitted s = map part_id (toProcess s)"

definition outcome :: "State \<Rightarrow> int \<times> bool \<Rightarrow> State" where
  "outcome s c =
     (if snd c then reducer s (UPLOAD_SUCCESS (fst c)) else reducer s (UPLOAD_FAILED (fst c)))"

definition run :: "State \<Rightarrow> (int \<times> bool) list \<Rightarrow> State" where
  "run s outs = foldl outcome (reducer s START_UPLOAD) outs"

text \<open>The dispatches of a pass are for identifiers that the pass has queued.\<close>

definition pass_ok :: "State \<Rightarrow> (int \<times> bool) list \<Rightarrow> bool" where
  "pass_ok s outs = list_all (\<lambda>c. Some (fst c) \<in> set (submitted s)) outs"

fun runs :: "State \<Rightarrow> (int \<times> bool) list list \<Rightarrow> State" where
  "runs s [] = s"
| "runs s (outs # rest) = runs (run s outs) rest"

fun runs_ok :: "State \<Rightarrow> (int \<times> bool) list list \<Rightarrow> bool" where
  "runs_ok s [] = True"
| "runs_ok s (outs # rest) = (pass_ok s outs \<and> runs_ok (run s outs) rest)"

text \<open>
  The ledger that \<open>handleInitialize\<close> builds has an identifier on every part, and no
  identifier twice.
\<close>

definition ledger_ok :: "State \<Rightarrow> bool" where
  "ledger_ok s = (list_all (\<lambda>p. part_id p \<noteq> None) (items s) \<and> distinct (map part_id (items s)))"

text \<open>
  The ledger of the retry example: part 0 has succeeded, parts 1 and 2 have failed, and no
  run is active.
\<close>

definition retry_example :: State where
  "retry_example =
     \<lparr>isUploading = False,
      items = [\<lparr>part_id = Some 0, success = Some True\<rparr>,
               \<lparr>part_id = Some 1, success = Some False\<rparr>,
               \<lparr>part_id = Some 2, success = Some False\<rparr>]\<rparr>"

section \<open>Facts about the array operations\<close>

lemma findIndex_ge: "- 1 \<le> findIndex P xs"
  by (induction xs) (auto simp: Let_def)

lemma findIndex_lt: "findIndex P xs < int (length xs)"
  by (induction xs) (auto simp: Let_def)

lemma findIndex_none: "(findIndex P xs = - 1) = (\<forall>x \<in> set xs. \<not> P x)"
proof (induction xs)
  case Nil
  show ?case by simp
next
  case (Cons a xs)
  have "- 1 \<le> findIndex P xs" by (rule findIndex_ge)
  then have "findIndex P xs + 1 \<noteq> - 1" by linarith
  with Cons show ?case by (simp add: Let_def)
qed

lemma findIndex_nth: "findIndex P xs \<noteq> - 1 \<Longrightarrow> P (xs ! nat (findIndex P xs))"
proof (induction xs)
  case Nil
  then show ?case by simp
next
  case (Cons a xs)
  show ?case
  proof (cases "P a")
    case True
    then show ?thesis by simp
  next
    case False
    with Cons.prems have ne: "findIndex P xs \<noteq> - 1"
      by (simp add: Let_def split: if_splits)
    have "- 1 \<le> findIndex P xs" by (rule findIndex_ge)
    with ne have "nat (findIndex P xs + 1) = Suc (nat (findIndex P xs))" by linarith
    with False ne Cons.IH show ?thesis by (simp add: Let_def)
  qed
qed

lemma findIndex_first: "j < nat (findIndex P xs) \<Longrightarrow> \<not> P (xs ! j)"
proof (induction xs arbitrary: j)
  case Nil
  then show ?case by simp
next
  case (Cons a xs)
  show ?case
  proof (cases "P a")
    case True
    with Cons.prems show ?thesis by simp
  next
    case False
    show ?thesis
    proof (cases j)
      case 0
      with False show ?thesis by simp
    next
      case (Suc m)
      have ge: "- 1 \<le> findIndex P xs" by (rule findIndex_ge)
      from Cons.prems False have ne: "findIndex P xs \<noteq> - 1"
        by (simp add: Let_def split: if_splits)
      with ge have "nat (findIndex P xs + 1) = Suc (nat (findIndex P xs))" by linarith
      with Cons.prems False ne Suc have "m < nat (findIndex P xs)"
        by (simp add: Let_def)
      then have "\<not> P (xs ! m)" by (rule Cons.IH)
      with Suc show ?thesis by simp
    qed
  qed
qed

lemma present_iff: "(Some k \<in> set (map part_id xs)) = (\<exists>x \<in> set xs. part_id x = Some k)"
  by force

lemma findIndex_absent:
  "Some k \<notin> set (map part_id xs) \<Longrightarrow> findIndex (\<lambda>i. part_id i = Some k) xs = - 1"
  by (simp only: present_iff findIndex_none) blast

lemma findIndex_present:
  assumes "Some k \<in> set (map part_id xs)"
  shows "0 \<le> findIndex (\<lambda>i. part_id i = Some k) xs"
proof -
  have "findIndex (\<lambda>i. part_id i = Some k) xs \<noteq> - 1"
    using assms by (simp only: present_iff findIndex_none) blast
  with findIndex_ge [of "\<lambda>i. part_id i = Some k" xs] show ?thesis by linarith
qed

lemma slice_0_neg1: "slice xs 0 (- 1) = butlast xs"
proof -
  have "nat (max (int (length xs) - 1) 0) = length xs - 1" by linarith
  then show ?thesis
    by (simp add: slice_def slice_bound_def butlast_conv_take)
qed

lemma slice_from_0: "slice_from xs 0 = xs"
  by (simp add: slice_def slice_from_def slice_bound_def)

lemma slice_0_take: "0 \<le> i \<Longrightarrow> i < int (length xs) \<Longrightarrow> slice xs 0 i = take (nat i) xs"
  by (simp add: slice_def slice_bound_def)

lemma slice_from_drop:
  "0 \<le> i \<Longrightarrow> i < int (length xs) \<Longrightarrow> slice_from xs (i + 1) = drop (Suc (nat i)) xs"
proof -
  assume a: "0 \<le> i" "i < int (length xs)"
  then have "nat (i + 1) = Suc (nat i)" by linarith
  with a show ?thesis
    by (simp add: slice_def slice_from_def slice_bound_def)
qed

lemma set_outcome_absent:
  assumes "Some k \<notin> set (map part_id xs)"
  shows "set_outcome xs k b = butlast xs @ [\<lparr>part_id = None, success = Some b\<rparr>] @ xs"
proof -
  have "findIndex (\<lambda>i. part_id i = Some k) xs = - 1"
    using assms by (rule findIndex_absent)
  then show ?thesis
    by (simp add: set_outcome_def js_index_def slice_0_neg1 slice_from_0 spread_success_def)
qed

lemma set_outcome_present:
  assumes "Some k \<in> set (map part_id xs)"
  shows "set_outcome xs k b =
    xs[nat (findIndex (\<lambda>i. part_id i = Some k) xs) :=
        (xs ! nat (findIndex (\<lambda>i. part_id i = Some k) xs))\<lparr>success := Some b\<rparr>]"
proof -
  define idx where "idx = findIndex (\<lambda>i. part_id i = Some k) xs"
  have ge: "0 \<le> idx"
    unfolding idx_def using assms by (rule findIndex_present)
  have lt: "idx < int (length xs)" unfolding idx_def by (rule findIndex_lt)
  from ge lt have n: "nat idx < length xs" by linarith
  have c: "js_index xs idx = Some (xs ! nat idx)"
    using ge lt by (simp add: js_index_def)
  have "set_outcome xs k b =
      take (nat idx) xs @ [(xs ! nat idx)\<lparr>success := Some b\<rparr>] @ drop (Suc (nat idx)) xs"
    by (simp add: set_outcome_def Let_def idx_def [symmetric] c spread_success_def
        slice_0_take [OF ge lt] slice_from_drop [OF ge lt])
  also have "\<dots> = xs[nat idx := (xs ! nat idx)\<lparr>success := Some b\<rparr>]"
    using n by (simp add: upd_conv_take_nth_drop)
  finally show ?thesis by (simp add: idx_def)
qed

lemma findIndex_map: "findIndex P (map f xs) = findIndex (\<lambda>x. P (f x)) xs"
  by (induction xs) simp_all

lemma findIndex_ids:
  "map part_id xs = map part_id ys \<Longrightarrow>
   findIndex (\<lambda>i. part_id i = c) xs = findIndex (\<lambda>i. part_id i = c) ys"
  using findIndex_map [of "\<lambda>v. v = c" part_id xs] findIndex_map [of "\<lambda>v. v = c" part_id ys]
  by simp

lemma map_part_id_update:
  "map part_id (xs[i := (xs ! i)\<lparr>success := b\<rparr>]) = map part_id xs"
proof (cases "i < length xs")
  case True
  then have "(map part_id xs)[i := part_id (xs ! i)] = (map part_id xs)[i := map part_id xs ! i]"
    by simp
  then show ?thesis by (simp add: map_update)
next
  case False
  then have "length xs \<le> i" by simp
  then have "xs[i := (xs ! i)\<lparr>success := b\<rparr>] = xs"
    by (rule list_update_beyond)
  then show ?thesis by simp
qed

lemma map_part_id_set_outcome:
  "Some k \<in> set (map part_id xs) \<Longrightarrow> map part_id (set_outcome xs k b) = map part_id xs"
  by (simp only: set_outcome_present map_part_id_update)

lemma length_set_outcome:
  "Some k \<in> set (map part_id xs) \<Longrightarrow> length (set_outcome xs k b) = length xs"
  by (simp only: set_outcome_present length_list_update)

lemma findIndex_present_nth:
  assumes "Some k \<in> set (map part_id xs)"
  shows "nat (findIndex (\<lambda>i. part_id i = Some k) xs) < length xs"
    and "part_id (xs ! nat (findIndex (\<lambda>i. part_id i = Some k) xs)) = Some k"
proof -
  have ge: "0 \<le> findIndex (\<lambda>i. part_id i = Some k) xs"
    using assms by (rule findIndex_present)
  have lt: "findIndex (\<lambda>i. part_id i = Some k) xs < int (length xs)" by (rule findIndex_lt)
  from ge lt show "nat (findIndex (\<lambda>i. part_id i = Some k) xs) < length xs" by linarith
  from ge have "findIndex (\<lambda>i. part_id i = Some k) xs \<noteq> - 1" by linarith
  then show "part_id (xs ! nat (findIndex (\<lambda>i. part_id i = Some k) xs)) = Some k"
    by (rule findIndex_nth)
qed

lemma set_outcome_other:
  assumes "Some k \<in> set (map part_id xs)" and "part_id (xs ! j) \<noteq> Some k"
  shows "set_outcome xs k b ! j = xs ! j"
proof -
  have "j \<noteq> nat (findIndex (\<lambda>i. part_id i = Some k) xs)"
    using assms findIndex_present_nth(2) [of k xs] by auto
  then show ?thesis
    by (simp add: set_outcome_present [OF assms(1)])
qed

lemma set_outcome_commute:
  assumes k1: "Some k1 \<in> set (map part_id xs)" and k2: "Some k2 \<in> set (map part_id xs)"
    and ne: "k1 \<noteq> k2"
  shows "set_outcome (set_outcome xs k1 b1) k2 b2 = set_outcome (set_outcome xs k2 b2) k1 b1"
proof -
  define i1 where "i1 = nat (findIndex (\<lambda>i. part_id i = Some k1) xs)"
  define i2 where "i2 = nat (findIndex (\<lambda>i. part_id i = Some k2) xs)"
  have p1: "part_id (xs ! i1) = Some k1" and p2: "part_id (xs ! i2) = Some k2"
    unfolding i1_def i2_def using k1 k2 by (simp_all add: findIndex_present_nth(2))
  have l1: "i1 < length xs" and l2: "i2 < length xs"
    unfolding i1_def i2_def using k1 k2 by (simp_all add: findIndex_present_nth(1))
  from p1 p2 ne have d: "i1 \<noteq> i2" by auto
  have s1: "set_outcome xs k1 b1 = xs[i1 := (xs ! i1)\<lparr>success := Some b1\<rparr>]"
    unfolding i1_def using k1 by (rule set_outcome_present)
  have s2: "set_outcome xs k2 b2 = xs[i2 := (xs ! i2)\<lparr>success := Some b2\<rparr>]"
    unfolding i2_def using k2 by (rule set_outcome_present)
  have m1: "map part_id (set_outcome xs k1 b1) = map part_id xs"
    using k1 by (rule map_part_id_set_outcome)
  have m2: "map part_id (set_outcome xs k2 b2) = map part_id xs"
    using k2 by (rule map_part_id_set_outcome)
  have f2: "nat (findIndex (\<lambda>i. part_id i = Some k2) (set_outcome xs k1 b1)) = i2"
    unfolding i2_def using findIndex_ids [OF m1] by simp
  have f1: "nat (findIndex (\<lambda>i. part_id i = Some k1) (set_outcome xs k2 b2)) = i1"
    unfolding i1_def using findIndex_ids [OF m2] by simp
  have k2': "Some k2 \<in> set (map part_id (set_outcome xs k1 b1))" using k2 m1 by simp
  have k1': "Some k1 \<in> set (map part_id (set_outcome xs k2 b2))" using k1 m2 by simp
  have a: "set_outcome (set_outcome xs k1 b1) k2 b2 =
      xs[i1 := (xs ! i1)\<lparr>success := Some b1\<rparr>, i2 := (xs ! i2)\<lparr>success := Some b2\<rparr>]"
    using d l1 l2 by (simp add: set_outcome_present [OF k2'] f2) (simp add: s1)
  have b: "set_outcome (set_outcome xs k2 b2) k1 b1 =
      xs[i2 := (xs ! i2)\<lparr>success := Some b2\<rparr>, i1 := (xs ! i1)\<lparr>success := Some b1\<rparr>]"
    using d l1 l2 by (simp add: set_outcome_present [OF k1'] f1) (simp add: s2)
  from a b d show ?thesis by (simp add: list_update_swap)
qed

section \<open>The claims about the ledger\<close>

lemma fakeParts_eq: "fakeParts n = map int [0..<n]"
proof -
  have "map fst (enumerate 0 (replicate n ())) = [0..<n]"
    by (simp add: map_fst_enumerate)
  then have "map int (map fst (enumerate 0 (replicate n ()))) = map int [0..<n]"
    by (rule arg_cong)
  then have "map (\<lambda>p. int (fst p)) (enumerate 0 (replicate n ())) = map int [0..<n]"
    by (simp only: map_map comp_def)
  then show ?thesis
    by (simp add: fakeParts_def case_prod_unfold)
qed

lemma items_initialize:
  "items (initialize n s) = map (\<lambda>i. \<lparr>part_id = Some (int i), success = None\<rparr>) [0..<n]"
  by (simp add: initialize_def fakeParts_eq comp_def)

text \<open>
  C6. For every \<open>n\<close>, \<open>initialize n\<close> (the \<open>ADD_ITEMS\<close> dispatch of
  \<open>handleInitialize\<close>) leaves a ledger of exactly \<open>n\<close> items, all of them unresolved
  (\<open>success\<close> is \<open>null\<close>), with the identifiers \<open>0, \<dots>, n - 1\<close> in this order. The
  items do not depend on the items of the state before, which are replaced. The source
  calls it with \<open>n = TOTAL_PARTS = 500\<close>.
\<close>

theorem initialize_fresh_items:
  "length (items (initialize n s)) = n
   \<and> map part_id (items (initialize n s)) = map (\<lambda>i. Some (int i)) [0..<n]
   \<and> map success (items (initialize n s)) = replicate n None
   \<and> pending (items (initialize n s)) = items (initialize n s)
   \<and> items (initialize n s) = items (initialize n initialState)
   \<and> isUploading (initialize n s) = isUploading s
   \<and> handleInitialize s = initialize 500 s"
proof -
  have "map success (items (initialize n s)) = map (\<lambda>i. None) [0..<n]"
    by (simp add: items_initialize comp_def)
  also have "\<dots> = replicate n None"
    by (simp add: map_replicate_const)
  finally have a: "map success (items (initialize n s)) = replicate n None" .
  have b: "pending (items (initialize n s)) = items (initialize n s)"
    by (simp add: items_initialize pending_def)
  have c: "isUploading (initialize n s) = isUploading s"
    by (simp add: initialize_def)
  show ?thesis
    using a b c by (simp add: items_initialize comp_def handleInitialize_def TOTAL_PARTS_def)
qed

lemma anyItemsPending_iff: "anyItemsPending xs = (\<exists>p \<in> set xs. success p = None)"
  by (simp add: anyItemsPending_def pending_def filter_empty_conv)

text \<open>
  C8. After \<open>UPLOAD_SUCCESS\<close> and after \<open>UPLOAD_FAILED\<close>, for any state and any
  identifier, the stored flag \<open>isUploading\<close> is \<open>pending.length > 0\<close> of the new item
  list: it is true exactly when some item of the new list is unresolved.
\<close>

theorem outcome_recomputes_isUploading:
  "isUploading (reducer s (UPLOAD_SUCCESS k))
     = (length (pending (items (reducer s (UPLOAD_SUCCESS k)))) > 0)
   \<and> isUploading (reducer s (UPLOAD_SUCCESS k))
     = (\<exists>p \<in> set (items (reducer s (UPLOAD_SUCCESS k))). success p = None)
   \<and> isUploading (reducer s (UPLOAD_FAILED k))
     = (length (pending (items (reducer s (UPLOAD_FAILED k)))) > 0)
   \<and> isUploading (reducer s (UPLOAD_FAILED k))
     = (\<exists>p \<in> set (items (reducer s (UPLOAD_FAILED k))). success p = None)"
  by (simp add: Let_def anyItemsPending_iff [symmetric]) (simp add: anyItemsPending_def)

lemma items_reducer_success: "items (reducer s (UPLOAD_SUCCESS k)) = set_outcome (items s) k True"
  by (simp add: Let_def)

lemma items_reducer_failed: "items (reducer s (UPLOAD_FAILED k)) = set_outcome (items s) k False"
  by (simp add: Let_def)

lemma length_set_outcome_absent:
  "Some k \<notin> set (map part_id xs) \<Longrightarrow>
   length (set_outcome xs k b) = (if xs = [] then 1 else 2 * length xs)"
proof -
  assume "Some k \<notin> set (map part_id xs)"
  then have "set_outcome xs k b = butlast xs @ [\<lparr>part_id = None, success = Some b\<rparr>] @ xs"
    by (rule set_outcome_absent)
  then show ?thesis by (cases xs) simp_all
qed

text \<open>
  C10. When no item of the list has the identifier, \<open>UPLOAD_SUCCESS\<close> returns a state
  (the reducer has no error result) whose item list is the old list without its last
  element, then one item that has \<open>success: true\<close> and no identifier, then the whole
  old list. A list of \<open>n > 0\<close> items becomes one of \<open>2 * n\<close>, the empty list becomes
  one of \<open>1\<close>. \<open>UPLOAD_FAILED\<close> does the same with \<open>success: false\<close>.
\<close>

theorem outcome_absent_id_items:
  assumes "Some k \<notin> set (map part_id (items s))"
  shows "items (reducer s (UPLOAD_SUCCESS k))
           = butlast (items s) @ [\<lparr>part_id = None, success = Some True\<rparr>] @ items s
       \<and> items (reducer s (UPLOAD_FAILED k))
           = butlast (items s) @ [\<lparr>part_id = None, success = Some False\<rparr>] @ items s
       \<and> length (items (reducer s (UPLOAD_SUCCESS k)))
           = (if items s = [] then 1 else 2 * length (items s))
       \<and> length (items (reducer s (UPLOAD_FAILED k)))
           = (if items s = [] then 1 else 2 * length (items s))"
  unfolding items_reducer_success items_reducer_failed
  using set_outcome_absent [OF assms] length_set_outcome_absent [OF assms] by simp

theorem outcome_absent_id_items_witness:
  "Some 7 \<notin> set (map part_id (items retry_example))
   \<and> items (reducer retry_example (UPLOAD_SUCCESS 7))
       = [\<lparr>part_id = Some 0, success = Some True\<rparr>,
          \<lparr>part_id = Some 1, success = Some False\<rparr>,
          \<lparr>part_id = None, success = Some True\<rparr>,
          \<lparr>part_id = Some 0, success = Some True\<rparr>,
          \<lparr>part_id = Some 1, success = Some False\<rparr>,
          \<lparr>part_id = Some 2, success = Some False\<rparr>]
   \<and> length (items (reducer retry_example (UPLOAD_FAILED 7))) = 6"
  using outcome_absent_id_items [of 7 retry_example]
  by (simp add: retry_example_def)

text \<open>
  C3 (as claimed, refuted). The claim is that \<open>UPLOAD_SUCCESS\<close> for an identifier that
  no item has fails with a \<open>NotFoundError\<close> and does not change the state. On the retry
  example, with the identifier 7, the reducer returns a state, and this state has six
  items where the ledger had three.
\<close>

theorem unknown_id_not_rejected:
  "Some 7 \<notin> set (map part_id (items retry_example))
   \<and> reducer retry_example (UPLOAD_SUCCESS 7)
       = \<lparr>isUploading = False,
          items = [\<lparr>part_id = Some 0, success = Some True\<rparr>,
                   \<lparr>part_id = Some 1, success = Some False\<rparr>,
                   \<lparr>part_id = None, success = Some True\<rparr>,
                   \<lparr>part_id = Some 0, success = Some True\<rparr>,
                   \<lparr>part_id = Some 1, success = Some False\<rparr>,
                   \<lparr>part_id = Some 2, success = Some False\<rparr>]\<rparr>
   \<and> reducer retry_example (UPLOAD_SUCCESS 7) \<noteq> retry_example"
  by (simp add: retry_example_def Let_def set_outcome_def js_index_def slice_0_neg1
      slice_from_0 spread_success_def anyItemsPending_def pending_def)

text \<open>
  C3 (amended). For an identifier that no item has, \<open>UPLOAD_SUCCESS\<close> and
  \<open>UPLOAD_FAILED\<close> do not fail: the reducer has no error result, it returns a state,
  and the item list of that state is longer than the one before, so the state is changed.
\<close>

theorem outcome_absent_id_mutates:
  assumes "Some k \<notin> set (map part_id (items s))"
  shows "length (items s) < length (items (reducer s (UPLOAD_SUCCESS k)))
       \<and> length (items s) < length (items (reducer s (UPLOAD_FAILED k)))
       \<and> reducer s (UPLOAD_SUCCESS k) \<noteq> s
       \<and> reducer s (UPLOAD_FAILED k) \<noteq> s"
proof -
  have a: "length (items s) < length (set_outcome (items s) k b)" for b
    using length_set_outcome_absent [OF assms, of b] by (cases "items s") simp_all
  have l1: "length (items s) < length (items (reducer s (UPLOAD_SUCCESS k)))"
    using a [of True] by (simp only: items_reducer_success)
  have l2: "length (items s) < length (items (reducer s (UPLOAD_FAILED k)))"
    using a [of False] by (simp only: items_reducer_failed)
  have n1: "reducer s (UPLOAD_SUCCESS k) \<noteq> s"
  proof
    assume "reducer s (UPLOAD_SUCCESS k) = s"
    then have "length (items (reducer s (UPLOAD_SUCCESS k))) = length (items s)"
      by (rule arg_cong)
    with l1 show False by simp
  qed
  have n2: "reducer s (UPLOAD_FAILED k) \<noteq> s"
  proof
    assume "reducer s (UPLOAD_FAILED k) = s"
    then have "length (items (reducer s (UPLOAD_FAILED k))) = length (items s)"
      by (rule arg_cong)
    with l2 show False by simp
  qed
  from l1 l2 n1 n2 show ?thesis by blast
qed

theorem outcome_absent_id_mutates_witness:
  "Some 5 \<notin> set (map part_id (items initialState))
   \<and> length (items initialState) = 0
   \<and> length (items (reducer initialState (UPLOAD_FAILED 5))) = 1
   \<and> reducer initialState (UPLOAD_SUCCESS 5) \<noteq> initialState"
  using outcome_absent_id_mutates [of 5 initialState]
  by (simp add: initialState_def Let_def set_outcome_def js_index_def slice_0_neg1
      slice_from_0 spread_success_def)

text \<open>
  C9. When some item has the identifier, \<open>UPLOAD_SUCCESS\<close> and \<open>UPLOAD_FAILED\<close> change
  the \<open>success\<close> field of one item and nothing else of the item list: the first item
  with this identifier, at its index \<open>i\<close>, gets the new \<open>success\<close>; the length of the
  list, the identifiers and their order stay, and so does every item with another
  identifier.
\<close>

theorem outcome_present_id_frame:
  assumes "Some k \<in> set (map part_id (items s))"
  shows "(\<exists>i < length (items s).
            part_id (items s ! i) = Some k
          \<and> (\<forall>j < i. part_id (items s ! j) \<noteq> Some k)
          \<and> items (reducer s (UPLOAD_SUCCESS k))
              = (items s)[i := (items s ! i)\<lparr>success := Some True\<rparr>]
          \<and> items (reducer s (UPLOAD_FAILED k))
              = (items s)[i := (items s ! i)\<lparr>success := Some False\<rparr>])
       \<and> length (items (reducer s (UPLOAD_SUCCESS k))) = length (items s)
       \<and> length (items (reducer s (UPLOAD_FAILED k))) = length (items s)
       \<and> map part_id (items (reducer s (UPLOAD_SUCCESS k))) = map part_id (items s)
       \<and> map part_id (items (reducer s (UPLOAD_FAILED k))) = map part_id (items s)
       \<and> (\<forall>j < length (items s). part_id (items s ! j) \<noteq> Some k \<longrightarrow>
              items (reducer s (UPLOAD_SUCCESS k)) ! j = items s ! j
            \<and> items (reducer s (UPLOAD_FAILED k)) ! j = items s ! j)"
proof -
  define i where "i = nat (findIndex (\<lambda>p. part_id p = Some k) (items s))"
  have a: "i < length (items s)" and b: "part_id (items s ! i) = Some k"
    unfolding i_def using assms by (rule findIndex_present_nth)+
  have c: "\<forall>j < i. part_id (items s ! j) \<noteq> Some k"
    unfolding i_def using findIndex_first [of _ "\<lambda>p. part_id p = Some k" "items s"] by blast
  have d: "set_outcome (items s) k v = (items s)[i := (items s ! i)\<lparr>success := Some v\<rparr>]" for v
    unfolding i_def using assms by (rule set_outcome_present)
  have first: "\<exists>i < length (items s).
            part_id (items s ! i) = Some k
          \<and> (\<forall>j < i. part_id (items s ! j) \<noteq> Some k)
          \<and> items (reducer s (UPLOAD_SUCCESS k))
              = (items s)[i := (items s ! i)\<lparr>success := Some True\<rparr>]
          \<and> items (reducer s (UPLOAD_FAILED k))
              = (items s)[i := (items s ! i)\<lparr>success := Some False\<rparr>]"
    unfolding items_reducer_success items_reducer_failed
    using a b c d by blast
  have len: "length (set_outcome (items s) k v) = length (items s)" for v
    using assms by (rule length_set_outcome)
  have ids: "map part_id (set_outcome (items s) k v) = map part_id (items s)" for v
    using assms by (rule map_part_id_set_outcome)
  have other: "part_id (items s ! j) \<noteq> Some k \<Longrightarrow> set_outcome (items s) k v ! j = items s ! j"
    for j v
    using assms by (rule set_outcome_other)
  show ?thesis
    unfolding items_reducer_success items_reducer_failed
    using first [unfolded items_reducer_success items_reducer_failed] len ids other
    by blast
qed

theorem outcome_present_id_frame_witness:
  "Some 1 \<in> set (map part_id (items retry_example))
   \<and> length (items (reducer retry_example (UPLOAD_SUCCESS 1))) = 3
   \<and> map part_id (items (reducer retry_example (UPLOAD_FAILED 1))) = [Some 0, Some 1, Some 2]
   \<and> items (reducer retry_example (UPLOAD_SUCCESS 1)) ! 2 = \<lparr>part_id = Some 2, success = Some False\<rparr>"
proof -
  have h: "Some 1 \<in> set (map part_id (items retry_example))"
    by (simp add: retry_example_def)
  have j: "part_id (items retry_example ! 2) \<noteq> Some 1" "2 < length (items retry_example)"
    by (simp_all add: retry_example_def)
  from outcome_present_id_frame [OF h] j
  have "length (items (reducer retry_example (UPLOAD_SUCCESS 1))) = length (items retry_example)"
    and "map part_id (items (reducer retry_example (UPLOAD_FAILED 1))) = map part_id (items retry_example)"
    and "items (reducer retry_example (UPLOAD_SUCCESS 1)) ! 2 = items retry_example ! 2"
    by blast+
  with h show ?thesis
    by (simp add: retry_example_def)
qed

lemma outcome_eq:
  "outcome s c =
     s\<lparr>items := set_outcome (items s) (fst c) (snd c),
       isUploading := anyItemsPending (set_outcome (items s) (fst c) (snd c))\<rparr>"
  by (simp add: outcome_def Let_def)

lemma outcome_commute:
  assumes "Some (fst c) \<in> set (map part_id (items s))"
    and "Some (fst d) \<in> set (map part_id (items s))"
    and "fst c \<noteq> fst d"
  shows "outcome (outcome s c) d = outcome (outcome s d) c"
  using set_outcome_commute [OF assms, of "snd c" "snd d"]
  by (simp add: outcome_eq)

text \<open>
  C7. For two different identifiers that the item list has, an outcome action for the one
  and an outcome action for the other give the same state in either order, whatever the
  two outcomes are.
\<close>

theorem outcomes_commute:
  assumes "Some k1 \<in> set (map part_id (items s))"
    and "Some k2 \<in> set (map part_id (items s))"
    and "k1 \<noteq> k2"
  shows "reducer (reducer s (UPLOAD_SUCCESS k1)) (UPLOAD_SUCCESS k2)
           = reducer (reducer s (UPLOAD_SUCCESS k2)) (UPLOAD_SUCCESS k1)
       \<and> reducer (reducer s (UPLOAD_SUCCESS k1)) (UPLOAD_FAILED k2)
           = reducer (reducer s (UPLOAD_FAILED k2)) (UPLOAD_SUCCESS k1)
       \<and> reducer (reducer s (UPLOAD_FAILED k1)) (UPLOAD_SUCCESS k2)
           = reducer (reducer s (UPLOAD_SUCCESS k2)) (UPLOAD_FAILED k1)
       \<and> reducer (reducer s (UPLOAD_FAILED k1)) (UPLOAD_FAILED k2)
           = reducer (reducer s (UPLOAD_FAILED k2)) (UPLOAD_FAILED k1)"
  using outcome_commute [of "(k1, True)" s "(k2, True)"]
    outcome_commute [of "(k1, True)" s "(k2, False)"]
    outcome_commute [of "(k1, False)" s "(k2, True)"]
    outcome_commute [of "(k1, False)" s "(k2, False)"] assms
  by (simp add: outcome_def)

theorem outcomes_commute_witness:
  "Some 1 \<in> set (map part_id (items retry_example))
   \<and> Some 2 \<in> set (map part_id (items retry_example))
   \<and> (1 :: int) \<noteq> 2
   \<and> reducer (reducer retry_example (UPLOAD_SUCCESS 1)) (UPLOAD_FAILED 2)
       = reducer (reducer retry_example (UPLOAD_FAILED 2)) (UPLOAD_SUCCESS 1)
   \<and> reducer (reducer retry_example (UPLOAD_FAILED 2)) (UPLOAD_SUCCESS 1)
       = \<lparr>isUploading = False,
          items = [\<lparr>part_id = Some 0, success = Some True\<rparr>,
                   \<lparr>part_id = Some 1, success = Some True\<rparr>,
                   \<lparr>part_id = Some 2, success = Some False\<rparr>]\<rparr>"
proof -
  have h: "Some 1 \<in> set (map part_id (items retry_example))"
    "Some 2 \<in> set (map part_id (items retry_example))" "(1 :: int) \<noteq> 2"
    by (simp_all add: retry_example_def)
  have v: "reducer (reducer retry_example (UPLOAD_FAILED 2)) (UPLOAD_SUCCESS 1)
       = \<lparr>isUploading = False,
          items = [\<lparr>part_id = Some 0, success = Some True\<rparr>,
                   \<lparr>part_id = Some 1, success = Some True\<rparr>,
                   \<lparr>part_id = Some 2, success = Some False\<rparr>]\<rparr>"
    by (simp add: retry_example_def Let_def set_outcome_def js_index_def slice_def
        slice_from_def slice_bound_def spread_success_def anyItemsPending_def pending_def)
  from outcomes_commute [OF h] h v show ?thesis by blast
qed

lemma items_reducer_start:
  "items (reducer s START_UPLOAD)
     = map (\<lambda>p. if success p = Some True then p else p\<lparr>success := None\<rparr>) (items s)"
  by (simp add: Let_def)

lemma map_part_id_start: "map part_id (items (reducer s START_UPLOAD)) = map part_id (items s)"
  by (simp add: items_reducer_start comp_def if_distrib cong: if_cong)

lemma pending_reset:
  "pending (map (\<lambda>p. if success p = Some True then p else p\<lparr>success := None\<rparr>) xs)
     = map (\<lambda>p. p\<lparr>success := None\<rparr>) (filter (\<lambda>p. success p \<noteq> Some True) xs)"
  by (induction xs) (simp_all add: pending_def)

lemma pending_start:
  "pending (items (reducer s START_UPLOAD)) = map (\<lambda>p. p\<lparr>success := None\<rparr>) (toProcess s)"
  by (simp only: items_reducer_start pending_reset toProcess_def)

lemma nth_start:
  "i < length (items s) \<Longrightarrow>
   items (reducer s START_UPLOAD) ! i
     = (if success (items s ! i) = Some True then items s ! i else (items s ! i)\<lparr>success := None\<rparr>)"
  by (simp add: items_reducer_start)

text \<open>
  C4. \<open>START_UPLOAD\<close> sets \<open>isUploading\<close>, resets every failed item to unresolved and
  leaves every succeeded item (and every unresolved one) as it is. The parts that
  \<open>run\<close> then queues, \<open>toProcess\<close> of the state before the dispatch, are the pending
  items of the state after it: the same identifiers in the same order, the pending items
  being the queued parts with \<open>success\<close> reset.
\<close>

theorem start_upload_resets_failed:
  "isUploading (reducer s START_UPLOAD)
   \<and> length (items (reducer s START_UPLOAD)) = length (items s)
   \<and> (\<forall>i < length (items s).
         (success (items s ! i) = Some False \<longrightarrow>
            items (reducer s START_UPLOAD) ! i = (items s ! i)\<lparr>success := None\<rparr>)
       \<and> (success (items s ! i) = Some True \<longrightarrow>
            items (reducer s START_UPLOAD) ! i = items s ! i)
       \<and> (success (items s ! i) = None \<longrightarrow>
            items (reducer s START_UPLOAD) ! i = items s ! i))
   \<and> submitted s = map part_id (pending (items (reducer s START_UPLOAD)))
   \<and> pending (items (reducer s START_UPLOAD)) = map (\<lambda>p. p\<lparr>success := None\<rparr>) (toProcess s)"
proof -
  have a: "isUploading (reducer s START_UPLOAD)"
    by (simp add: Let_def)
  have b: "length (items (reducer s START_UPLOAD)) = length (items s)"
    by (simp add: items_reducer_start)
  have c: "\<forall>i < length (items s).
         (success (items s ! i) = Some False \<longrightarrow>
            items (reducer s START_UPLOAD) ! i = (items s ! i)\<lparr>success := None\<rparr>)
       \<and> (success (items s ! i) = Some True \<longrightarrow>
            items (reducer s START_UPLOAD) ! i = items s ! i)
       \<and> (success (items s ! i) = None \<longrightarrow>
            items (reducer s START_UPLOAD) ! i = items s ! i)"
    by (simp add: nth_start)
  have d: "submitted s = map part_id (pending (items (reducer s START_UPLOAD)))"
    by (simp only: pending_start submitted_def) (simp add: comp_def)
  from a b c d pending_start show ?thesis by blast
qed

theorem start_upload_resets_failed_witness:
  "isUploading (reducer retry_example START_UPLOAD)
   \<and> items (reducer retry_example START_UPLOAD) ! 0 = \<lparr>part_id = Some 0, success = Some True\<rparr>
   \<and> items (reducer retry_example START_UPLOAD) ! 1 = \<lparr>part_id = Some 1, success = None\<rparr>
   \<and> submitted retry_example = [Some 1, Some 2]
   \<and> map part_id (pending (items (reducer retry_example START_UPLOAD))) = [Some 1, Some 2]"
proof -
  have s: "submitted retry_example = [Some 1, Some 2]"
    by (simp add: submitted_def toProcess_def retry_example_def)
  have i: "0 < length (items retry_example)" "success (items retry_example ! 0) = Some True"
    "1 < length (items retry_example)" "success (items retry_example ! 1) = Some False"
    by (simp_all add: retry_example_def)
  from start_upload_resets_failed [of retry_example] i
  have "isUploading (reducer retry_example START_UPLOAD)"
    and "items (reducer retry_example START_UPLOAD) ! 0 = items retry_example ! 0"
    and "items (reducer retry_example START_UPLOAD) ! 1 = (items retry_example ! 1)\<lparr>success := None\<rparr>"
    and "submitted retry_example = map part_id (pending (items (reducer retry_example START_UPLOAD)))"
    by blast+
  with s show ?thesis
    by (simp add: retry_example_def)
qed

lemma ledger_ok_ids:
  "ledger_ok s = (None \<notin> set (map part_id (items s)) \<and> distinct (map part_id (items s)))"
proof -
  have "list_all (\<lambda>p. part_id p \<noteq> None) xs = (None \<notin> set (map part_id xs))" for xs
    by (induction xs) auto
  then have "list_all (\<lambda>p. part_id p \<noteq> None) (items s) = (None \<notin> set (map part_id (items s)))" .
  then show ?thesis unfolding ledger_ok_def by (rule arg_cong)
qed

lemma ledger_ok_cong:
  "map part_id (items t) = map part_id (items s) \<Longrightarrow> ledger_ok t = ledger_ok s"
  by (simp only: ledger_ok_ids)

lemma submitted_subset: "set (submitted s) \<subseteq> set (map part_id (items s))"
  by (auto simp: submitted_def toProcess_def)

lemma succeeded_not_submitted:
  assumes "distinct (map part_id (items s))" and "i < length (items s)"
    and "success (items s ! i) = Some True"
  shows "part_id (items s ! i) \<notin> set (submitted s)"
proof
  assume "part_id (items s ! i) \<in> set (submitted s)"
  then obtain p where p: "p \<in> set (items s)" "success p \<noteq> Some True"
    "part_id p = part_id (items s ! i)"
    by (auto simp: submitted_def toProcess_def)
  from p(1) obtain j where j: "j < length (items s)" "items s ! j = p"
    by (auto simp: in_set_conv_nth)
  with p(3) assms(2) have "map part_id (items s) ! j = map part_id (items s) ! i"
    by simp
  with assms(1,2) j(1) have "j = i"
    using nth_eq_iff_index_eq [of "map part_id (items s)" j i] by simp
  with j(2) p(2) assms(3) show False by simp
qed

lemma items_outcome: "items (outcome t c) = set_outcome (items t) (fst c) (snd c)"
  by (simp add: outcome_eq)

lemma foldl_outcome_keeps:
  assumes "\<forall>c \<in> set outs. Some (fst c) \<in> set (map part_id (items t))
             \<and> part_id (items t ! i) \<noteq> Some (fst c)"
  shows "map part_id (items (foldl outcome t outs)) = map part_id (items t)
       \<and> items (foldl outcome t outs) ! i = items t ! i"
  using assms
proof (induction outs arbitrary: t)
  case Nil
  show ?case by simp
next
  case (Cons c outs)
  from Cons.prems have pres: "Some (fst c) \<in> set (map part_id (items t))"
    and other: "part_id (items t ! i) \<noteq> Some (fst c)"
    by simp_all
  have ids: "map part_id (items (outcome t c)) = map part_id (items t)"
    using pres by (simp only: items_outcome map_part_id_set_outcome)
  have same: "items (outcome t c) ! i = items t ! i"
    using set_outcome_other [OF pres other] by (simp only: items_outcome)
  have "\<forall>d \<in> set outs. Some (fst d) \<in> set (map part_id (items (outcome t c)))
             \<and> part_id (items (outcome t c) ! i) \<noteq> Some (fst d)"
    using Cons.prems by (simp add: ids same)
  then have "map part_id (items (foldl outcome (outcome t c) outs)) = map part_id (items (outcome t c))
       \<and> items (foldl outcome (outcome t c) outs) ! i = items (outcome t c) ! i"
    by (rule Cons.IH)
  with ids same show ?case by simp
qed

lemma run_keeps:
  assumes "ledger_ok s" and "pass_ok s outs" and "i < length (items s)"
    and "success (items s ! i) = Some True"
  shows "map part_id (items (run s outs)) = map part_id (items s)"
    and "items (run s outs) ! i = items s ! i"
proof -
  let ?t = "reducer s START_UPLOAD"
  have ids: "map part_id (items ?t) = map part_id (items s)" by (rule map_part_id_start)
  have same: "items ?t ! i = items s ! i"
    using assms(3,4) by (simp add: nth_start)
  have d: "distinct (map part_id (items s))"
    using assms(1) by (simp add: ledger_ok_def)
  have ns: "part_id (items s ! i) \<notin> set (submitted s)"
    using d assms(3,4) by (rule succeeded_not_submitted)
  have "\<forall>c \<in> set outs. Some (fst c) \<in> set (map part_id (items ?t))
             \<and> part_id (items ?t ! i) \<noteq> Some (fst c)"
  proof
    fix c assume "c \<in> set outs"
    with assms(2) have sub: "Some (fst c) \<in> set (submitted s)"
      by (simp add: pass_ok_def list_all_iff)
    with submitted_subset [of s] have "Some (fst c) \<in> set (map part_id (items s))" by blast
    moreover from sub ns have "part_id (items s ! i) \<noteq> Some (fst c)" by auto
    ultimately show "Some (fst c) \<in> set (map part_id (items ?t))
             \<and> part_id (items ?t ! i) \<noteq> Some (fst c)"
      by (simp only: ids same) simp
  qed
  then have "map part_id (items (foldl outcome ?t outs)) = map part_id (items ?t)
       \<and> items (foldl outcome ?t outs) ! i = items ?t ! i"
    by (rule foldl_outcome_keeps)
  with ids same show "map part_id (items (run s outs)) = map part_id (items s)"
    and "items (run s outs) ! i = items s ! i"
    by (simp_all only: run_def)
qed

lemma foldl_outcome_ids:
  assumes "\<forall>c \<in> set outs. Some (fst c) \<in> set (map part_id (items t))"
  shows "map part_id (items (foldl outcome t outs)) = map part_id (items t)"
  using assms
proof (induction outs arbitrary: t)
  case Nil
  show ?case by simp
next
  case (Cons c outs)
  from Cons.prems have pres: "Some (fst c) \<in> set (map part_id (items t))"
    by simp
  have ids: "map part_id (items (outcome t c)) = map part_id (items t)"
    using pres by (simp only: items_outcome map_part_id_set_outcome)
  have "\<forall>d \<in> set outs. Some (fst d) \<in> set (map part_id (items (outcome t c)))"
    using Cons.prems by (simp add: ids)
  then have "map part_id (items (foldl outcome (outcome t c) outs))
      = map part_id (items (outcome t c))"
    by (rule Cons.IH)
  with ids show ?case by simp
qed

lemma pass_ok_present:
  assumes "pass_ok s outs" and "c \<in> set outs"
  shows "Some (fst c) \<in> set (map part_id (items (reducer s START_UPLOAD)))"
proof -
  from assms have "Some (fst c) \<in> set (submitted s)"
    by (simp add: pass_ok_def list_all_iff)
  with submitted_subset [of s] have "Some (fst c) \<in> set (map part_id (items s))" by blast
  then show ?thesis by (simp only: map_part_id_start)
qed

lemma map_part_id_run:
  assumes "pass_ok s outs"
  shows "map part_id (items (run s outs)) = map part_id (items s)"
proof -
  have "\<forall>c \<in> set outs. Some (fst c) \<in> set (map part_id (items (reducer s START_UPLOAD)))"
    using assms by (blast intro: pass_ok_present)
  then have "map part_id (items (foldl outcome (reducer s START_UPLOAD) outs))
      = map part_id (items (reducer s START_UPLOAD))"
    by (rule foldl_outcome_ids)
  then show ?thesis by (simp only: run_def map_part_id_start)
qed

lemma ledger_ok_run: "ledger_ok s \<Longrightarrow> pass_ok s outs \<Longrightarrow> ledger_ok (run s outs)"
  using ledger_ok_cong [OF map_part_id_run] by blast

lemma ledger_ok_runs: "ledger_ok s \<Longrightarrow> runs_ok s ps \<Longrightarrow> ledger_ok (runs s ps)"
  by (induction ps arbitrary: s) (simp_all add: ledger_ok_run)

lemma ledger_ok_initialize: "ledger_ok (initialize n s)"
  by (simp add: ledger_ok_ids items_initialize comp_def distinct_map inj_on_def image_iff)

lemma runs_keep:
  assumes "ledger_ok s" and "runs_ok s ps" and "i < length (items s)"
    and "success (items s ! i) = Some True"
  shows "length (items (runs s ps)) = length (items s) \<and> items (runs s ps) ! i = items s ! i"
  using assms
proof (induction ps arbitrary: s)
  case Nil
  show ?case by simp
next
  case (Cons outs ps)
  from Cons.prems have ok: "pass_ok s outs" and rest: "runs_ok (run s outs) ps"
    by simp_all
  have ids: "map part_id (items (run s outs)) = map part_id (items s)"
    using ok by (rule map_part_id_run)
  then have "length (map part_id (items (run s outs))) = length (map part_id (items s))"
    by (rule arg_cong)
  then have len: "length (items (run s outs)) = length (items s)" by simp
  have same: "items (run s outs) ! i = items s ! i"
    using Cons.prems(1) ok Cons.prems(3,4) by (rule run_keeps(2))
  have "length (items (runs (run s outs) ps)) = length (items (run s outs))
      \<and> items (runs (run s outs) ps) ! i = items (run s outs) ! i"
    using ledger_ok_run [OF Cons.prems(1) ok] rest Cons.prems(3,4)
    by (intro Cons.IH) (simp_all add: len same)
  with len same show ?case by simp
qed

text \<open>
  C5. In a ledger whose items all have an identifier and no identifier twice (the ledger
  that \<open>handleInitialize\<close> builds, and every later one), an item that has succeeded
  stays as it is through any number of passes of \<open>run\<close>, whatever the outcomes of the
  passes and their order: no later \<open>START_UPLOAD\<close> changes it, and no later pass queues
  its identifier.
\<close>

theorem succeeded_item_is_kept:
  assumes "ledger_ok s" and "runs_ok s ps" and "i < length (items s)"
    and "success (items s ! i) = Some True"
  shows "items (runs s ps) ! i = items s ! i
       \<and> success (items (runs s ps) ! i) = Some True
       \<and> items (reducer (runs s ps) START_UPLOAD) ! i = items s ! i
       \<and> part_id (items s ! i) \<notin> set (submitted (runs s ps))"
proof -
  have k: "length (items (runs s ps)) = length (items s)" "items (runs s ps) ! i = items s ! i"
    using runs_keep [OF assms] by simp_all
  have i: "i < length (items (runs s ps))" using k(1) assms(3) by simp
  have t: "success (items (runs s ps) ! i) = Some True" using k(2) assms(4) by simp
  have a: "items (reducer (runs s ps) START_UPLOAD) ! i = items s ! i"
    using i t k(2) by (simp only: nth_start) simp
  have "distinct (map part_id (items (runs s ps)))"
    using ledger_ok_runs [OF assms(1,2)] by (simp add: ledger_ok_def)
  then have "part_id (items (runs s ps) ! i) \<notin> set (submitted (runs s ps))"
    using i t by (rule succeeded_not_submitted)
  with k(2) t a show ?thesis by simp
qed

theorem succeeded_item_is_kept_witness:
  "ledger_ok retry_example
   \<and> runs_ok retry_example [[(2, True), (1, False)], [(1, True)]]
   \<and> success (items retry_example ! 0) = Some True
   \<and> items (runs retry_example [[(2, True), (1, False)], [(1, True)]]) ! 0
       = \<lparr>part_id = Some 0, success = Some True\<rparr>
   \<and> Some 0 \<notin> set (submitted (runs retry_example [[(2, True), (1, False)], [(1, True)]]))"
proof -
  have r1: "run retry_example [(2, True), (1, False)]
      = \<lparr>isUploading = False,
         items = [\<lparr>part_id = Some 0, success = Some True\<rparr>,
                  \<lparr>part_id = Some 1, success = Some False\<rparr>,
                  \<lparr>part_id = Some 2, success = Some True\<rparr>]\<rparr>"
    by (simp add: run_def outcome_def retry_example_def Let_def set_outcome_def js_index_def
        slice_def slice_from_def slice_bound_def spread_success_def anyItemsPending_def
        pending_def)
  have s0: "submitted retry_example = [Some 1, Some 2]"
    by (simp add: submitted_def toProcess_def retry_example_def)
  have s1: "submitted (run retry_example [(2, True), (1, False)]) = [Some 1]"
    by (simp add: r1 submitted_def toProcess_def)
  have h: "ledger_ok retry_example"
    "runs_ok retry_example [[(2, True), (1, False)], [(1, True)]]"
    "0 < length (items retry_example)"
    "success (items retry_example ! 0) = Some True"
    by (simp_all add: pass_ok_def s0 s1) (simp_all add: retry_example_def ledger_ok_def)
  from succeeded_item_is_kept [OF h] h show ?thesis
    by (simp add: retry_example_def)
qed

text \<open>
  The state after a pass does not depend on the order of its dispatches, when the pass
  dispatches at most once for an identifier.
\<close>

lemma run_order_independent:
  assumes ok: "pass_ok s outs" and d: "distinct (map fst outs)" and p: "mset outs = mset outs'"
  shows "run s outs = run s outs'"
proof -
  let ?t = "reducer s START_UPLOAD"
  let ?P = "\<lambda>z. map part_id (items z) = map part_id (items ?t)"
  have pres: "Some (fst c) \<in> set (map part_id (items z))" if "c \<in> set outs" "?P z" for c z
    using pass_ok_present [OF ok that(1)] that(2) by simp
  have keep: "?P (outcome z c)" if "c \<in> set outs" "?P z" for c z
    using pres [OF that] that(2) by (simp only: items_outcome map_part_id_set_outcome)
  have comm: "outcome (outcome z y) x = outcome (outcome z x) y"
    if "x \<in> set outs" "y \<in> set outs" "?P z" for x y z
  proof (cases "x = y")
    case True
    then show ?thesis by simp
  next
    case False
    from d have "inj_on fst (set outs)" by (simp add: distinct_map)
    with that(1,2) False have "fst y \<noteq> fst x" by (auto dest: inj_onD)
    with pres [OF that(2,3)] pres [OF that(1,3)] show ?thesis
      by (rule outcome_commute)
  qed
  have "fold (\<lambda>c z. outcome z c) outs ?t = fold (\<lambda>c z. outcome z c) outs' ?t"
    using p _ keep comm by (rule fold_permuted_eq [where P = ?P]) simp
  then show ?thesis by (simp add: run_def foldl_conv_fold)
qed

end
